theory Spec2Isabelle
  imports Complex_Main "HOL-Library.Word" "HOL-Library.AList"
begin

unbundle bit_operations_syntax

section \<open>Consistent-hash ring (package hashing)\<close>

subsection \<open>CRC-32 (IEEE) and rune-to-string conversion\<close>

text \<open>
  \<^verbatim>\<open>hashKey\<close> calls \<^verbatim>\<open>crc32.ChecksumIEEE\<close> of the Go standard library. It is modelled by
  the table-driven update of \<^verbatim>\<open>hash/crc32\<close>: the table entry of a byte is eight shift/xor
  rounds with the reflected polynomial \<^verbatim>\<open>0xedb88320\<close>, and the checksum starts from and
  ends with a bitwise complement. A Go string is a byte sequence, which is what
  \<^typ>\<open>string\<close> is here.
\<close>

definition crc_round :: "32 word \<Rightarrow> 32 word" where
  "crc_round c = (if bit c 0 then drop_bit 1 c XOR 0xEDB88320 else drop_bit 1 c)"

definition IEEETable :: "8 word \<Rightarrow> 32 word" where
  "IEEETable b = (crc_round ^^ 8) (ucast b)"

fun crc_update :: "32 word \<Rightarrow> string \<Rightarrow> 32 word" where
  "crc_update crc [] = crc"
| "crc_update crc (v # p) =
     crc_update (IEEETable (ucast crc XOR of_char v) XOR drop_bit 8 crc) p"

definition ChecksumIEEE :: "string \<Rightarrow> 32 word" where
  "ChecksumIEEE p = NOT (crc_update (NOT 0) p)"

text \<open>
  \<^verbatim>\<open>string(rune(i))\<close>: the conversion \<^verbatim>\<open>rune(i)\<close> keeps the low 32 bits of \<^verbatim>\<open>i\<close> as a signed
  value, and the conversion to a string is the UTF-8 encoding of that code point, with
  U+FFFD for a value that is not a Unicode scalar value.
\<close>

definition rune :: "int \<Rightarrow> int" where
  "rune i = sint (word_of_int i :: 32 word)"

definition rune_string :: "int \<Rightarrow> string" where
  "rune_string r0 =
     (let r = (if r0 < 0 \<or> 0x10FFFF < r0 \<or> (0xD800 \<le> r0 \<and> r0 \<le> 0xDFFF) then 0xFFFD else r0)
      in if r \<le> 0x7F then [char_of r]
         else if r \<le> 0x7FF then [char_of (0xC0 + r div 64), char_of (0x80 + r mod 64)]
         else if r \<le> 0xFFFF then
           [char_of (0xE0 + r div 4096), char_of (0x80 + (r div 64) mod 64),
            char_of (0x80 + r mod 64)]
         else
           [char_of (0xF0 + r div 262144), char_of (0x80 + (r div 4096) mod 64),
            char_of (0x80 + (r div 64) mod 64), char_of (0x80 + r mod 64)])"

subsection \<open>The ring\<close>

text \<open>
  \<^verbatim>\<open>ConsistentHasher\<close> without its lock. A lookup in a Go map returns the zero value for a
  missing key: \<open>hash_at\<close> and \<open>weight_at\<close> are the reads \<^verbatim>\<open>c.hash[v]\<close> and
  \<^verbatim>\<open>c.weights[node]\<close>. The weight is a Go \<^verbatim>\<open>int\<close>; the product \<^verbatim>\<open>replicationFactor*weight\<close>
  is taken in the integers (it wraps in Go only for a weight beyond \<open>2^63 / 100\<close>).
\<close>

record ConsistentHasher =
  hash :: "32 word \<rightharpoonup> string"
  nodes :: "32 word list"
  weights :: "string \<rightharpoonup> int"

definition replicationFactor :: int where
  "replicationFactor = 100"

definition hashKey :: "string \<Rightarrow> 32 word" where
  "hashKey key = ChecksumIEEE key"

definition hash_at :: "ConsistentHasher \<Rightarrow> 32 word \<Rightarrow> string" where
  "hash_at c v = (case hash c v of None \<Rightarrow> [] | Some node \<Rightarrow> node)"

definition weight_at :: "ConsistentHasher \<Rightarrow> string \<Rightarrow> int" where
  "weight_at c node = (case weights c node of None \<Rightarrow> 0 | Some w \<Rightarrow> w)"

definition hashing_New :: ConsistentHasher where
  "hashing_New = \<lparr>hash = Map.empty, nodes = [], weights = Map.empty\<rparr>"

text \<open>The virtual-node hash of \<^verbatim>\<open>node\<close> for loop index \<^verbatim>\<open>i\<close>.\<close>

definition vnode :: "string \<Rightarrow> nat \<Rightarrow> 32 word" where
  "vnode node i = hashKey (node @ rune_string (rune (int i)))"

text \<open>The indices \<^verbatim>\<open>0 <= i < replicationFactor*weight\<close> of both loops, in order.\<close>

definition replicas :: "int \<Rightarrow> nat list" where
  "replicas weight = [0 ..< nat (replicationFactor * weight)]"

fun Add_loop :: "string \<Rightarrow> nat list \<Rightarrow> ConsistentHasher \<Rightarrow> ConsistentHasher" where
  "Add_loop node [] c = c"
| "Add_loop node (i # ks) c =
     Add_loop node ks
       (c\<lparr>hash := (hash c)(vnode node i \<mapsto> node), nodes := nodes c @ [vnode node i]\<rparr>)"

definition Add :: "ConsistentHasher \<Rightarrow> string \<Rightarrow> int \<Rightarrow> ConsistentHasher" where
  "Add c node weight =
     (let c1 = c\<lparr>weights := (weights c)(node \<mapsto> weight)\<rparr>;
          c2 = Add_loop node (replicas weight) c1
      in c2\<lparr>nodes := sort (nodes c2)\<rparr>)"

fun Remove_loop :: "string \<Rightarrow> nat list \<Rightarrow> ConsistentHasher \<Rightarrow> ConsistentHasher" where
  "Remove_loop node [] c = c"
| "Remove_loop node (i # ks) c =
     Remove_loop node ks (c\<lparr>hash := (hash c)(vnode node i := None)\<rparr>)"

definition Remove :: "ConsistentHasher \<Rightarrow> string \<Rightarrow> ConsistentHasher" where
  "Remove c node =
     (let weight = weight_at c node;
          c1 = c\<lparr>weights := (weights c)(node := None)\<rparr>;
          c2 = Remove_loop node (replicas weight) c1
      in c2\<lparr>nodes := filter (\<lambda>v. hash_at c2 v \<noteq> node) (nodes c2)\<rparr>)"

text \<open>
  \<^verbatim>\<open>sort.Search(n, f)\<close> of the standard library: binary search for the least index in
  \<open>[0, n)\<close> at which \<open>f\<close> holds, \<open>n\<close> when there is none.
\<close>

function Search_loop :: "(nat \<Rightarrow> bool) \<Rightarrow> nat \<Rightarrow> nat \<Rightarrow> nat" where
  "Search_loop f i j =
     (if i < j then
        (let h = (i + j) div 2
         in if \<not> f h then Search_loop f (h + 1) j else Search_loop f i h)
      else i)"
  by pat_completeness auto
termination
  by (relation "measure (\<lambda>(f, i, j). j - i)") auto

declare Search_loop.simps [simp del]

definition Search :: "nat \<Rightarrow> (nat \<Rightarrow> bool) \<Rightarrow> nat" where
  "Search n f = Search_loop f 0 n"

definition Get :: "ConsistentHasher \<Rightarrow> string \<Rightarrow> string" where
  "Get c key =
     (if length (nodes c) = 0 then []
      else
        let h = hashKey key;
            idx = Search (length (nodes c)) (\<lambda>i. h \<le> nodes c ! i);
            idx' = (if idx = length (nodes c) then 0 else idx)
        in hash_at c (nodes c ! idx'))"

section \<open>Connection pool (package connpool)\<close>

text \<open>
  A \<^verbatim>\<open>net.Conn\<close> is known to the pool by its identity and its remote address. Times are
  nanoseconds on one clock: \<^verbatim>\<open>time.Now()\<close> is the argument \<open>now\<close> of an operation and
  \<^verbatim>\<open>time.Since(t)\<close> is \<open>now - t\<close>. The idle map is an association list read with
  \<^const>\<open>map_of\<close> and written with \<^const>\<open>AList.update\<close> and \<^const>\<open>AList.delete\<close>, so that
  \<^verbatim>\<open>Close\<close> and \<^verbatim>\<open>cleanup\<close> can range over it. Every operation runs under the pool's mutex,
  so operations are atomic steps on the pool state; each returns its result, the new pool
  and the connections it closed.
\<close>

record Conn =
  conn_id :: nat
  RemoteAddr :: string

record idleConn =
  conn :: Conn
  timeAdded :: int

record PoolConfig =
  MaxIdle :: int
  MaxActive :: int
  IdleTimeout :: int

record Pool =
  maxIdle :: int
  maxActive :: int
  idleTimeout :: int
  active :: int
  idle :: "(string \<times> idleConn list) list"

datatype pool_error =
  InvalidPoolConfiguration
  | MaxActiveReached
  | DialError
  | NotFromPool
  | CloseError

text \<open>\<^verbatim>\<open>p.idle[addr]\<close>: the bucket of an address, empty for a missing key.\<close>

definition bucket :: "Pool \<Rightarrow> string \<Rightarrow> idleConn list" where
  "bucket p addr = (case map_of (idle p) addr of None \<Rightarrow> [] | Some conns \<Rightarrow> conns)"

definition connpool_New :: "PoolConfig \<Rightarrow> pool_error + Pool" where
  "connpool_New c =
     (if MaxIdle c \<le> 0 \<or> MaxActive c \<le> 0 then Inl InvalidPoolConfiguration
      else Inr \<lparr>maxIdle = MaxIdle c, maxActive = MaxActive c, idleTimeout = IdleTimeout c,
                active = 0, idle = []\<rparr>)"

text \<open>
  \<^verbatim>\<open>createConn\<close>: \<open>dialFunc addr\<close> is what \<^verbatim>\<open>p.dialFunc(addr)\<close> answers at this call,
  \<open>None\<close> for a dial error.
\<close>

definition createConn ::
  "Pool \<Rightarrow> string \<Rightarrow> (string \<Rightarrow> Conn option) \<Rightarrow> (pool_error + Conn) \<times> Pool" where
  "createConn p addr dialFunc =
     (if maxActive p \<le> active p then (Inl MaxActiveReached, p)
      else case dialFunc addr of
             None \<Rightarrow> (Inl DialError, p)
           | Some cn \<Rightarrow> (Inr cn, p\<lparr>active := active p + 1\<rparr>))"

definition Pool_Get ::
  "Pool \<Rightarrow> string \<Rightarrow> int \<Rightarrow> (string \<Rightarrow> Conn option) \<Rightarrow> (pool_error + Conn) \<times> Pool \<times> Conn list" where
  "Pool_Get p addr now dialFunc =
     (case map_of (idle p) addr of
        Some conns \<Rightarrow>
          if 0 < length conns then
            (let ic = last conns;
                 p1 = p\<lparr>idle := AList.update addr (butlast conns) (idle p)\<rparr>
             in if idleTimeout p1 < now - timeAdded ic then
                  (let (r, p2) = createConn p1 addr dialFunc in (r, p2, [conn ic]))
                else (Inr (conn ic), p1\<lparr>active := active p1 + 1\<rparr>, []))
          else (let (r, p2) = createConn p addr dialFunc in (r, p2, []))
      | None \<Rightarrow> (let (r, p2) = createConn p addr dialFunc in (r, p2, [])))"

text \<open>
  \<^verbatim>\<open>Put\<close>: \<open>closeErr\<close> is what \<^verbatim>\<open>conn.Close()\<close> returns if the connection is closed.
\<close>

definition Pool_Put ::
  "Pool \<Rightarrow> Conn \<Rightarrow> int \<Rightarrow> pool_error option \<Rightarrow> pool_error option \<times> Pool \<times> Conn list" where
  "Pool_Put p cn now closeErr =
     (if active p \<le> 0 then (Some NotFromPool, p, [])
      else
        let p1 = p\<lparr>active := active p - 1\<rparr>;
            addr = RemoteAddr cn
        in if maxIdle p1 \<le> int (length (bucket p1 addr)) then (closeErr, p1, [cn])
           else (None,
                 p1\<lparr>idle := AList.update addr
                          (bucket p1 addr @ [\<lparr>conn = cn, timeAdded = now\<rparr>]) (idle p1)\<rparr>,
                 []))"

text \<open>
  \<^verbatim>\<open>Close\<close> ranges over the entries of the idle map, closes the connections of each and
  deletes its key; the order of a Go map range is not fixed, here it is the list's.
\<close>

fun Close_loop ::
  "(string \<times> idleConn list) list \<Rightarrow> Pool \<Rightarrow> Conn list \<Rightarrow> Pool \<times> Conn list" where
  "Close_loop [] p shut = (p, shut)"
| "Close_loop ((addr, conns) # rest) p shut =
     Close_loop rest (p\<lparr>idle := AList.delete addr (idle p)\<rparr>) (shut @ map conn conns)"

definition Pool_Close :: "Pool \<Rightarrow> pool_error option \<times> Pool \<times> Conn list" where
  "Pool_Close p = (let (p1, shut) = Close_loop (idle p) p [] in (None, p1, shut))"

text \<open>One round of the background task \<^verbatim>\<open>cleanup\<close> (the body of its ticker loop).\<close>

fun cleanup_loop ::
  "(string \<times> idleConn list) list \<Rightarrow> int \<Rightarrow> Pool \<Rightarrow> Conn list \<Rightarrow> Pool \<times> Conn list" where
  "cleanup_loop [] now p shut = (p, shut)"
| "cleanup_loop ((addr, conns) # rest) now p shut =
     (let valid = filter (\<lambda>ic. \<not> idleTimeout p < now - timeAdded ic) conns;
          expired = filter (\<lambda>ic. idleTimeout p < now - timeAdded ic) conns;
          p1 = (if length valid = 0 then p\<lparr>idle := AList.delete addr (idle p)\<rparr>
                else p\<lparr>idle := AList.update addr valid (idle p)\<rparr>)
      in cleanup_loop rest now p1 (shut @ map conn expired))"

definition cleanup :: "Pool \<Rightarrow> int \<Rightarrow> Pool \<times> Conn list" where
  "cleanup p now = cleanup_loop (idle p) now p []"

text \<open>Sequences of pool operations, each with what the environment answers to it.\<close>

datatype pool_op =
  OpGet string int "string \<Rightarrow> Conn option"
  | OpPut Conn int "pool_error option"
  | OpClose
  | OpCleanup int

fun pool_step :: "Pool \<Rightarrow> pool_op \<Rightarrow> Pool" where
  "pool_step p (OpGet addr now dialFunc) = fst (snd (Pool_Get p addr now dialFunc))"
| "pool_step p (OpPut cn now closeErr) = fst (snd (Pool_Put p cn now closeErr))"
| "pool_step p OpClose = fst (snd (Pool_Close p))"
| "pool_step p (OpCleanup now) = fst (cleanup p now)"

definition pool_run :: "Pool \<Rightarrow> pool_op list \<Rightarrow> Pool" where
  "pool_run p ops = foldl pool_step p ops"

text \<open>
  The invariant behind the idle cap: \<^verbatim>\<open>maxIdle\<close> is not negative and no entry of the idle
  map is longer than \<^verbatim>\<open>maxIdle\<close>.
\<close>

definition idle_capped :: "Pool \<Rightarrow> bool" where
  "idle_capped p \<longleftrightarrow>
     0 \<le> maxIdle p \<and> (\<forall>(a, cs) \<in> set (idle p). int (length cs) \<le> maxIdle p)"

section \<open>Floating-point values\<close>

text \<open>
  The configuration holds one \<^verbatim>\<open>float64\<close>, the failure threshold, and the detector compares \<^verbatim>\<open>float64\<close> values and computes with them. A \<^verbatim>\<open>float64\<close> is a finite
  number, an infinity or NaN, and the comparisons \<^verbatim>\<open><=\<close> and \<^verbatim>\<open><\<close> are modelled exactly:
  they are false as soon as one side is NaN. The arithmetic is not modelled. The two
  computations of package health that run on \<^verbatim>\<open>float64\<close> enter every function below as a
  parameter \<open>fm\<close>:
  \<^item> \<open>stdDev_of fm live m\<close> is the value that \<^verbatim>\<open>updateStats\<close> stores in \<^verbatim>\<open>h.stdDev\<close> for the
    live samples \<open>live\<close> and the mean \<open>m\<close> it has just stored (the sum of squares, the
    division by the count, the square root and the conversion to a duration);
  \<^item> \<open>phi_of fm t sd m\<close> is the value \<^verbatim>\<open>phi\<close> returns past its early returns, for the time \<open>t\<close>
    since the last check, \<^verbatim>\<open>hist.stdDev = sd\<close> and \<^verbatim>\<open>hist.mean = m\<close> (the substitute for a zero
    deviation, the quotient, \<^verbatim>\<open>normalCDF\<close> and the logarithm).
  A theorem stated for every \<open>fm\<close> holds whatever these computations return.
\<close>

datatype f64 = Finite real | PosInf | NegInf | NaN

fun f64_le :: "f64 \<Rightarrow> f64 \<Rightarrow> bool" where
  "f64_le NaN y = False"
| "f64_le x NaN = False"
| "f64_le NegInf y = True"
| "f64_le x PosInf = True"
| "f64_le (Finite a) (Finite b) = (a \<le> b)"
| "f64_le x y = False"

fun f64_less :: "f64 \<Rightarrow> f64 \<Rightarrow> bool" where
  "f64_less NaN y = False"
| "f64_less x NaN = False"
| "f64_less (Finite a) (Finite b) = (a < b)"
| "f64_less NegInf NegInf = False"
| "f64_less NegInf y = True"
| "f64_less PosInf y = False"
| "f64_less x PosInf = True"
| "f64_less x y = False"

record float64_math =
  stdDev_of :: "int list \<Rightarrow> int \<Rightarrow> int"
  phi_of :: "int \<Rightarrow> int \<Rightarrow> int \<Rightarrow> f64"

text \<open>
  One instance, for statements about concrete inputs: both computations read over the real
  numbers, with the error function as its power series. It stands for no more than one
  possible behaviour of the floating-point code.
\<close>

definition erf :: "real \<Rightarrow> real" where
  "erf x = 2 / sqrt pi * (\<Sum>n. (- 1) ^ n * x ^ (2 * n + 1) / (fact n * real (2 * n + 1)))"

definition normalCDF :: "real \<Rightarrow> real" where
  "normalCDF x = 0.5 * (1 + erf (x / sqrt 2))"

definition real_math :: float64_math where
  "real_math =
     \<lparr>stdDev_of = (\<lambda>live m.
        \<lfloor>sqrt ((\<Sum>d\<leftarrow>live. (real_of_int (d - m))\<^sup>2) / real (length live))\<rfloor>),
      phi_of = (\<lambda>t sd m.
        let sigma = (if sd = 0 then real_of_int m / 10 else real_of_int sd);
            y = (real_of_int t - real_of_int m) / sigma
        in Finite (- log 10 (normalCDF (- y))))\<rparr>"

section \<open>Configuration (package config)\<close>

text \<open>
  The configuration as \<^verbatim>\<open>config.Config\<close> has it; the port of the balancer section is
  \<open>BalancerPort\<close> here, \<open>Port\<close> being the field of a backend. \<^verbatim>\<open>validate\<close> returns the first
  error it finds, \<open>None\<close> for a valid configuration.
\<close>

record BalancerConfig =
  BalancerPort :: int
  HealthCheckInterval :: int
  FailureThreshold :: f64

record BackendConfig =
  Host :: string
  Port :: int
  Weight :: int

record Config =
  Balancer :: BalancerConfig
  Backends :: "BackendConfig list"
  Pool :: PoolConfig

datatype config_error =
  InvalidPort
  | InvalidHealthCheckInterval
  | InvalidFailureThreshold
  | NoBackends
  | BackendMissingHost nat
  | BackendInvalidPort nat
  | BackendInvalidWeight nat
  | InvalidMaxIdle
  | InvalidMaxActive
  | InvalidIdleTimeout

fun validate_backends :: "nat \<Rightarrow> BackendConfig list \<Rightarrow> config_error option" where
  "validate_backends i [] = None"
| "validate_backends i (bc # bcs) =
     (if Host bc = [] then Some (BackendMissingHost i)
      else if Port bc \<le> 0 then Some (BackendInvalidPort i)
      else if Weight bc \<le> 0 then Some (BackendInvalidWeight i)
      else validate_backends (i + 1) bcs)"

definition validate :: "Config \<Rightarrow> config_error option" where
  "validate c =
     (if BalancerPort (Balancer c) \<le> 0 then Some InvalidPort
      else if HealthCheckInterval (Balancer c) \<le> 0 then Some InvalidHealthCheckInterval
      else if f64_le (FailureThreshold (Balancer c)) (Finite 0) then Some InvalidFailureThreshold
      else if length (Backends c) = 0 then Some NoBackends
      else case validate_backends 0 (Backends c) of
             Some err \<Rightarrow> Some err
           | None \<Rightarrow>
               if MaxIdle (Pool c) \<le> 0 then Some InvalidMaxIdle
               else if MaxActive (Pool c) \<le> 0 then Some InvalidMaxActive
               else if IdleTimeout (Pool c) \<le> 0 then Some InvalidIdleTimeout
               else None)"

section \<open>Failure detector (package health)\<close>

subsection \<open>The checker\<close>

text \<open>
  A \<^verbatim>\<open>time.Duration\<close> is a number of nanoseconds. \<^verbatim>\<open>histories\<close> is an association list, since
  \<^verbatim>\<open>checkAll\<close> ranges over its keys; a history is held by pointer in Go, so a write to it
  is a write to the entry of its host. Integer division in Go truncates towards zero.
\<close>

definition sampleSize :: int where
  "sampleSize = 1000"

definition defaultPhiThreshold :: f64 where
  "defaultPhiThreshold = Finite 8"

definition quot :: "int \<Rightarrow> int \<Rightarrow> int" where
  "quot a b = sgn a * sgn b * (\<bar>a\<bar> div \<bar>b\<bar>)"

record history =
  times_buf :: "int list"
  index :: int
  count :: int
  mean :: int
  stdDev :: int

record Checker =
  interval :: int
  phiThreshold :: f64
  histories :: "(string \<times> history) list"
  lastCheck :: "string \<rightharpoonup> int"

definition health_New :: "int \<Rightarrow> f64 \<Rightarrow> Checker" where
  "health_New itv thr =
     \<lparr>interval = itv,
      phiThreshold = (if f64_le thr (Finite 0) then defaultPhiThreshold else thr),
      histories = [], lastCheck = Map.empty\<rparr>"

definition updateStats :: "float64_math \<Rightarrow> history \<Rightarrow> history" where
  "updateStats fm h =
     (if count h = 0 then h
      else
        let live = take (nat (count h)) (times_buf h);
            m = quot (sum_list live) (count h)
        in h\<lparr>mean := m, stdDev := stdDev_of fm live m\<rparr>)"

text \<open>
  \<^verbatim>\<open>recordSuccess\<close> in its three parts: the history of the host, made if there is none; the
  write of the sample into the circular buffer; the new statistics. The write
  \<^verbatim>\<open>hist.times[hist.index] = duration\<close> is in range in every history the checker makes
  (lemma \<open>history_or_new_ok\<close> below).
\<close>

definition new_history :: history where
  "new_history =
     \<lparr>times_buf = replicate (nat sampleSize) 0, index = 0, count = 0, mean = 0, stdDev = 0\<rparr>"

definition history_or_new :: "Checker \<Rightarrow> string \<Rightarrow> history" where
  "history_or_new c hst = (case map_of (histories c) hst of None \<Rightarrow> new_history | Some h \<Rightarrow> h)"

definition push_sample :: "history \<Rightarrow> int \<Rightarrow> history" where
  "push_sample hist duration =
     hist\<lparr>times_buf := (times_buf hist)[nat (index hist) := duration],
          index := (index hist + 1) mod sampleSize,
          count := (if count hist < sampleSize then count hist + 1 else count hist)\<rparr>"

definition recordSuccess :: "float64_math \<Rightarrow> Checker \<Rightarrow> string \<Rightarrow> int \<Rightarrow> int \<Rightarrow> Checker" where
  "recordSuccess fm c hst duration now =
     (let hist = history_or_new c hst
      in c\<lparr>histories := AList.update hst (updateStats fm (push_sample hist duration)) (histories c),
           lastCheck := (lastCheck c)(hst \<mapsto> now)\<rparr>)"

definition recordFailure :: "Checker \<Rightarrow> string \<Rightarrow> int \<Rightarrow> Checker" where
  "recordFailure c hst now = c\<lparr>lastCheck := (lastCheck c)(hst \<mapsto> now)\<rparr>"

text \<open>
  \<^verbatim>\<open>check\<close>: \<open>probe hst\<close> is the outcome of the TCP connect to \<open>hst\<close>, \<open>None\<close> for an error and
  the elapsed time for a connection.
\<close>

definition check ::
  "float64_math \<Rightarrow> Checker \<Rightarrow> string \<Rightarrow> int \<Rightarrow> (string \<Rightarrow> int option) \<Rightarrow> Checker \<times> bool" where
  "check fm c hst now probe =
     (case probe hst of
        None \<Rightarrow> (recordFailure c hst now, False)
      | Some duration \<Rightarrow> (recordSuccess fm c hst duration now, True))"

text \<open>
  \<^verbatim>\<open>checkAll\<close> collects the keys of \<^verbatim>\<open>c.histories\<close> and starts one goroutine per key, which
  runs \<^verbatim>\<open>check\<close> and then the callback. The goroutines are run here one after the other in
  the order of the keys; the result is the checker and the calls of the callback,
  \<open>(host, healthy)\<close> each.
\<close>

fun checkAll_loop ::
  "float64_math \<Rightarrow> string list \<Rightarrow> int \<Rightarrow> (string \<Rightarrow> int option) \<Rightarrow> Checker \<Rightarrow>
   (string \<times> bool) list \<Rightarrow> Checker \<times> (string \<times> bool) list" where
  "checkAll_loop fm [] now probe c calls = (c, calls)"
| "checkAll_loop fm (hst # hosts) now probe c calls =
     (let (c1, healthy) = check fm c hst now probe
      in checkAll_loop fm hosts now probe c1 (calls @ [(hst, healthy)]))"

definition checkAll ::
  "float64_math \<Rightarrow> Checker \<Rightarrow> int \<Rightarrow> (string \<Rightarrow> int option) \<Rightarrow> Checker \<times> (string \<times> bool) list" where
  "checkAll fm c now probe = checkAll_loop fm (map fst (histories c)) now probe c []"

definition phi :: "float64_math \<Rightarrow> Checker \<Rightarrow> string \<Rightarrow> int \<Rightarrow> f64" where
  "phi fm c hst now =
     (case lastCheck c hst of
        None \<Rightarrow> Finite 0
      | Some lastTime \<Rightarrow>
          (case map_of (histories c) hst of
             None \<Rightarrow> Finite 0
           | Some hist \<Rightarrow>
               if count hist = 0 then Finite 0
               else phi_of fm (now - lastTime) (stdDev hist) (mean hist)))"

definition IsHealthy :: "float64_math \<Rightarrow> Checker \<Rightarrow> string \<Rightarrow> int \<Rightarrow> bool" where
  "IsHealthy fm c hst now = f64_less (phi fm c hst now) (phiThreshold c)"

text \<open>What the checker records, as a sequence: successes and failures of probes.\<close>

datatype record_event = Success string int int | Failure string int

fun record_step :: "float64_math \<Rightarrow> Checker \<Rightarrow> record_event \<Rightarrow> Checker" where
  "record_step fm c (Success hst duration now) = recordSuccess fm c hst duration now"
| "record_step fm c (Failure hst now) = recordFailure c hst now"

definition record_run :: "float64_math \<Rightarrow> Checker \<Rightarrow> record_event list \<Rightarrow> Checker" where
  "record_run fm c evs = foldl (record_step fm) c evs"

fun success_on :: "string \<Rightarrow> record_event \<Rightarrow> bool" where
  "success_on hst (Success h duration now) = (h = hst)"
| "success_on hst (Failure h now) = False"

text \<open>
  A history as the checker makes it: a buffer of \<^verbatim>\<open>sampleSize\<close> slots, the write index inside
  it and a count of at most \<^verbatim>\<open>sampleSize\<close>. \<open>durations_on\<close> lists the durations of the
  successes recorded on a host, oldest first.
\<close>

definition history_ok :: "history \<Rightarrow> bool" where
  "history_ok h \<longleftrightarrow>
     int (length (times_buf h)) = sampleSize \<and> 0 \<le> index h \<and> index h < sampleSize \<and>
     0 \<le> count h \<and> count h \<le> sampleSize"

fun durations_on :: "string \<Rightarrow> record_event list \<Rightarrow> int list" where
  "durations_on hst [] = []"
| "durations_on hst (Success h duration now # evs) =
     (if h = hst then duration # durations_on hst evs else durations_on hst evs)"
| "durations_on hst (Failure h now # evs) = durations_on hst evs"

section \<open>Balancer (package balancer)\<close>

subsection \<open>Construction and the detector's callback\<close>

text \<open>
  \<^verbatim>\<open>backends\<close> is the \<^verbatim>\<open>sync.Map\<close> from \<^verbatim>\<open>"host:port"\<close> to the backend, and \<open>checker\<close> is the
  field \<^verbatim>\<open>health\<close> of the balancer.
\<close>

record backend =
  host :: string
  port :: int
  weight :: int
  health :: bool

record balancer =
  cfg :: Config
  pool :: Pool
  hasher :: ConsistentHasher
  checker :: Checker
  backends :: "string \<rightharpoonup> backend"

text \<open>\<^verbatim>\<open>fmt.Sprintf("%s:%d", host, port)\<close>.\<close>

definition digit :: "nat \<Rightarrow> char" where
  "digit d = ''0123456789'' ! d"

fun decimal :: "nat \<Rightarrow> string" where
  "decimal n = (if n < 10 then [digit n] else decimal (n div 10) @ [digit (n mod 10)])"

declare decimal.simps [simp del]

definition host_port :: "string \<Rightarrow> int \<Rightarrow> string" where
  "host_port h p = h @ '':'' @ (if p < 0 then ''-'' @ decimal (nat (- p)) else decimal (nat p))"

definition add_backend :: "BackendConfig \<Rightarrow> balancer \<Rightarrow> balancer" where
  "add_backend bc b =
     (let be = \<lparr>host = Host bc, port = Port bc, weight = Weight bc, health = True\<rparr>
      in b\<lparr>backends := (backends b)(host_port (Host bc) (Port bc) \<mapsto> be),
           hasher := Add (hasher b) (host be) (weight be)\<rparr>)"

definition balancer_New :: "Config \<Rightarrow> pool_error + balancer" where
  "balancer_New c =
     (case connpool_New (Pool c) of
        Inl err \<Rightarrow> Inl err
      | Inr pl \<Rightarrow>
          Inr (fold add_backend (Backends c)
                 \<lparr>cfg = c, pool = pl, hasher = hashing_New,
                  checker = health_New (HealthCheckInterval (Balancer c))
                              (FailureThreshold (Balancer c)),
                  backends = Map.empty\<rparr>))"

definition updateBackendHealth :: "balancer \<Rightarrow> string \<Rightarrow> bool \<Rightarrow> balancer" where
  "updateBackendHealth b key healthy =
     (case backends b key of
        Some be \<Rightarrow> b\<lparr>backends := (backends b)(key \<mapsto> be\<lparr>health := healthy\<rparr>)\<rparr>
      | None \<Rightarrow> b)"

text \<open>
  One tick of the detector as \<^verbatim>\<open>Start\<close> wires it: \<^verbatim>\<open>checkAll\<close> with \<^verbatim>\<open>updateBackendHealth\<close> as the
  callback. The result is the balancer and the calls of the callback.
\<close>

definition detector_tick ::
  "float64_math \<Rightarrow> balancer \<Rightarrow> int \<Rightarrow> (string \<Rightarrow> int option) \<Rightarrow> balancer \<times> (string \<times> bool) list" where
  "detector_tick fm b now probe =
     (let (c1, calls) = checkAll fm (checker b) now probe
      in (fold (\<lambda>(key, healthy) b1. updateBackendHealth b1 key healthy) calls
            (b\<lparr>checker := c1\<rparr>),
          calls))"

fun detector_ticks ::
  "float64_math \<Rightarrow> balancer \<Rightarrow> (int \<times> (string \<Rightarrow> int option)) list \<Rightarrow>
   balancer \<times> (string \<times> bool) list" where
  "detector_ticks fm b [] = (b, [])"
| "detector_ticks fm b ((now, probe) # ts) =
     (let (b1, calls) = detector_tick fm b now probe;
          (b2, calls') = detector_ticks fm b1 ts
      in (b2, calls @ calls'))"

subsection \<open>One client connection\<close>

text \<open>
  \<^verbatim>\<open>handleConnection\<close> and its two \<^verbatim>\<open>proxy\<close> goroutines as three processes that take steps in
  any order. The handler goes through its statements in program order: the backend lookup
  (\<open>LookupOk\<close> or \<open>LookupFails\<close>), \<^verbatim>\<open>pool.Get\<close> (\<open>GetOk\<close> or \<open>GetFails\<close>), the two \<^verbatim>\<open>go\<close>
  statements (\<open>Spawn\<close>), the receive \<^verbatim>\<open><-errCh\<close> (\<open>Receive\<close>, possible when the channel holds a
  value), and on return the deferred calls, last registered first: \<^verbatim>\<open>b.pool.Put(backendConn)\<close>
  (\<open>Release\<close>), registered only after a successful \<^verbatim>\<open>Get\<close>, then \<^verbatim>\<open>clientConn.Close()\<close>
  (\<open>CloseClient\<close>). A proxy task copies until \<^verbatim>\<open>io.Copy\<close> returns (\<open>CopyReturns\<close>, whenever the
  connections make it return) and then sends on \<^verbatim>\<open>errCh\<close> and ends (\<open>Send\<close>; the channel has
  room for two values).
\<close>

datatype handler_pc =
  AtLookup | AtGet | AtSpawn1 | AtSpawn2 | AtReceive | AtRelease | AtCloseClient | Returned

datatype task_pc = NotStarted | Copying | CopyDone | Terminated

datatype task_id = ClientToBackend | BackendToClient

datatype conn_event =
  LookupOk | LookupFails | GetOk | GetFails | Spawn | Receive | Release | CloseClient
  | CopyReturns task_id | Send task_id

record conn_state =
  handler :: handler_pc
  c2b :: task_pc
  b2c :: task_pc
  errCh :: nat
  received :: bool
  released :: bool

definition conn_init :: conn_state where
  "conn_init = \<lparr>handler = AtLookup, c2b = NotStarted, b2c = NotStarted, errCh = 0,
                received = False, released = False\<rparr>"

definition task_of :: "conn_state \<Rightarrow> task_id \<Rightarrow> task_pc" where
  "task_of s t = (case t of ClientToBackend \<Rightarrow> c2b s | BackendToClient \<Rightarrow> b2c s)"

definition set_task :: "conn_state \<Rightarrow> task_id \<Rightarrow> task_pc \<Rightarrow> conn_state" where
  "set_task s t v = (case t of ClientToBackend \<Rightarrow> s\<lparr>c2b := v\<rparr> | BackendToClient \<Rightarrow> s\<lparr>b2c := v\<rparr>)"

text \<open>A step is \<open>None\<close> when the event cannot happen in the state.\<close>

fun conn_step :: "conn_state \<Rightarrow> conn_event \<Rightarrow> conn_state option" where
  "conn_step s LookupOk = (if handler s = AtLookup then Some (s\<lparr>handler := AtGet\<rparr>) else None)"
| "conn_step s LookupFails =
     (if handler s = AtLookup then Some (s\<lparr>handler := AtCloseClient\<rparr>) else None)"
| "conn_step s GetOk = (if handler s = AtGet then Some (s\<lparr>handler := AtSpawn1\<rparr>) else None)"
| "conn_step s GetFails =
     (if handler s = AtGet then Some (s\<lparr>handler := AtCloseClient\<rparr>) else None)"
| "conn_step s Spawn =
     (if handler s = AtSpawn1 then Some (s\<lparr>handler := AtSpawn2, c2b := Copying\<rparr>)
      else if handler s = AtSpawn2 then Some (s\<lparr>handler := AtReceive, b2c := Copying\<rparr>)
      else None)"
| "conn_step s Receive =
     (if handler s = AtReceive \<and> 0 < errCh s
      then Some (s\<lparr>handler := AtRelease, errCh := errCh s - 1, received := True\<rparr>)
      else None)"
| "conn_step s Release =
     (if handler s = AtRelease then Some (s\<lparr>handler := AtCloseClient, released := True\<rparr>)
      else None)"
| "conn_step s CloseClient =
     (if handler s = AtCloseClient then Some (s\<lparr>handler := Returned\<rparr>) else None)"
| "conn_step s (CopyReturns t) =
     (if task_of s t = Copying then Some (set_task s t CopyDone) else None)"
| "conn_step s (Send t) =
     (if task_of s t = CopyDone \<and> errCh s < 2
      then Some ((set_task s t Terminated)\<lparr>errCh := errCh s + 1\<rparr>)
      else None)"

fun conn_run :: "conn_state \<Rightarrow> conn_event list \<Rightarrow> conn_state option" where
  "conn_run s [] = Some s"
| "conn_run s (e # es) = (case conn_step s e of None \<Rightarrow> None | Some s1 \<Rightarrow> conn_run s1 es)"

text \<open>
  The invariant of a connection's run: every value sent on \<^verbatim>\<open>errCh\<close> is in the channel or
  was received, and the handler's position bounds what has happened.
\<close>

definition sent :: "conn_state \<Rightarrow> nat" where
  "sent s = (if c2b s = Terminated then 1 else 0) + (if b2c s = Terminated then 1 else 0)"

fun pc_inv :: "handler_pc \<Rightarrow> conn_state \<Rightarrow> bool" where
  "pc_inv AtSpawn2 s = (b2c s = NotStarted \<and> \<not> received s \<and> \<not> released s)"
| "pc_inv AtReceive s = (\<not> received s \<and> \<not> released s)"
| "pc_inv AtRelease s = (received s \<and> \<not> released s)"
| "pc_inv AtCloseClient s = (received s \<or> \<not> released s)"
| "pc_inv Returned s = (received s \<or> \<not> released s)"
| "pc_inv pc s = (c2b s = NotStarted \<and> b2c s = NotStarted \<and> \<not> received s \<and> \<not> released s)"

definition conn_inv :: "conn_state \<Rightarrow> bool" where
  "conn_inv s \<longleftrightarrow> errCh s + (if received s then 1 else 0) = sent s \<and> pc_inv (handler s) s"

section \<open>Properties of the ring\<close>

subsection \<open>What the loops of Add and Remove do\<close>

lemma Add_loop_nodes: "nodes (Add_loop n ks c) = nodes c @ map (vnode n) ks"
  by (induction ks arbitrary: c) simp_all

lemma Add_loop_weights: "weights (Add_loop n ks c) = weights c"
  by (induction ks arbitrary: c) simp_all

lemma Add_loop_hash:
  "hash (Add_loop n ks c) v = (if v \<in> vnode n ` set ks then Some n else hash c v)"
  by (induction ks arbitrary: c) auto

lemma Remove_loop_nodes: "nodes (Remove_loop n ks c) = nodes c"
  by (induction ks arbitrary: c) simp_all

lemma Remove_loop_weights: "weights (Remove_loop n ks c) = weights c"
  by (induction ks arbitrary: c) simp_all

lemma Remove_loop_hash:
  "hash (Remove_loop n ks c) v = (if v \<in> vnode n ` set ks then None else hash c v)"
  by (induction ks arbitrary: c) auto

lemma Add_nodes: "nodes (Add c n w) = sort (nodes c @ map (vnode n) (replicas w))"
  by (simp add: Add_def Let_def Add_loop_nodes)

lemma Add_hash:
  "hash (Add c n w) v = (if v \<in> vnode n ` set (replicas w) then Some n else hash c v)"
  by (simp add: Add_def Let_def Add_loop_hash)

lemma Add_weights: "weights (Add c n w) = (weights c)(n \<mapsto> w)"
  by (simp add: Add_def Let_def Add_loop_weights)

lemma Remove_hash:
  "hash (Remove c n) v = (if v \<in> vnode n ` set (replicas (weight_at c n)) then None else hash c v)"
  by (simp add: Remove_def Let_def Remove_loop_hash)

lemma Remove_weights: "weights (Remove c n) = (weights c)(n := None)"
  by (simp add: Remove_def Let_def Remove_loop_weights)

lemma Remove_nodes:
  "nodes (Remove c n) = filter (\<lambda>v. hash_at (Remove c n) v \<noteq> n) (nodes c)"
  by (simp add: Remove_def Let_def Remove_loop_nodes hash_at_def)

text \<open>
  \<^verbatim>\<open>Remove\<close> filters the node list by \<^verbatim>\<open>c.hash[v] != node\<close> after it has deleted the node's
  hashes from \<^verbatim>\<open>c.hash\<close>: for a deleted hash the lookup gives the empty string. On a ring
  in which every hash mapped to the node is one of its virtual nodes, the filter keeps
  every element.
\<close>

lemma Remove_keeps_nodes:
  assumes "n \<noteq> []"
    and "\<forall>v. hash c v = Some n \<longrightarrow> v \<in> vnode n ` set (replicas (weight_at c n))"
  shows "nodes (Remove c n) = nodes c"
proof -
  have "hash_at (Remove c n) v \<noteq> n" for v
    using assms by (auto simp: hash_at_def Remove_hash split: option.splits)
  then show ?thesis by (simp add: Remove_nodes)
qed

subsection \<open>Binary search\<close>

lemma Search_loop_spec:
  assumes "\<forall>a b. a \<le> b \<and> b < n \<and> f a \<longrightarrow> f b"
    and "i \<le> j" and "j \<le> n" and "\<forall>k<i. \<not> f k" and "\<forall>k. j \<le> k \<and> k < n \<longrightarrow> f k"
  shows "i \<le> Search_loop f i j \<and> Search_loop f i j \<le> j \<and>
         (\<forall>k < Search_loop f i j. \<not> f k) \<and> (\<forall>k. Search_loop f i j \<le> k \<and> k < n \<longrightarrow> f k)"
  using assms
proof (induction f i j rule: Search_loop.induct)
  case (1 f i j)
  show ?case
  proof (cases "i < j")
    case False
    then have "Search_loop f i j = i" by (simp add: Search_loop.simps [of f i j])
    moreover have "i = j" using False "1.prems"(2) by simp
    ultimately show ?thesis using "1.prems"(4,5) by simp
  next
    case True
    define h where "h = (i + j) div 2"
    have h: "i \<le> h" "h < j" using True by (simp_all add: h_def)
    show ?thesis
    proof (cases "f h")
      case False
      have low: "\<forall>k<h + 1. \<not> f k"
      proof (intro allI impI)
        fix k assume "k < h + 1"
        then have "k \<le> h" by simp
        moreover have "h < n" using h(2) "1.prems"(3) by simp
        ultimately show "\<not> f k" using False "1.prems"(1) by blast
      qed
      have le: "h + 1 \<le> j" using h(2) by simp
      have eq: "Search_loop f i j = Search_loop f (h + 1) j"
        using True False by (simp add: Search_loop.simps [of f i j] h_def Let_def)
      have "h + 1 \<le> Search_loop f (h + 1) j \<and> Search_loop f (h + 1) j \<le> j \<and>
         (\<forall>k < Search_loop f (h + 1) j. \<not> f k) \<and>
         (\<forall>k. Search_loop f (h + 1) j \<le> k \<and> k < n \<longrightarrow> f k)"
        by (rule "1.IH"(1) [OF True h_def False "1.prems"(1) le "1.prems"(3) low "1.prems"(5)])
      then show ?thesis unfolding eq using h(1) by auto
    next
      case fh: True
      have up: "\<forall>k. h \<le> k \<and> k < n \<longrightarrow> f k"
        using fh "1.prems"(1) by blast
      have hn: "h \<le> n" using h(2) "1.prems"(3) by simp
      have nn: "\<not> \<not> f h" using fh by simp
      have eq: "Search_loop f i j = Search_loop f i h"
        using True fh by (simp add: Search_loop.simps [of f i j] h_def Let_def)
      have "i \<le> Search_loop f i h \<and> Search_loop f i h \<le> h \<and>
         (\<forall>k < Search_loop f i h. \<not> f k) \<and>
         (\<forall>k. Search_loop f i h \<le> k \<and> k < n \<longrightarrow> f k)"
        by (rule "1.IH"(2) [OF True h_def nn "1.prems"(1) h(1) hn "1.prems"(4) up])
      then show ?thesis unfolding eq using h(2) by auto
    qed
  qed
qed

lemma Search_sorted_mem:
  assumes "sorted xs" and "h \<in> set xs"
  shows "Search (length xs) (\<lambda>i. h \<le> xs ! i) < length xs \<and>
         xs ! Search (length xs) (\<lambda>i. h \<le> xs ! i) = h"
proof -
  define f where "f = (\<lambda>i. h \<le> xs ! i)"
  define r where "r = Search (length xs) f"
  have mono: "\<forall>a b. a \<le> b \<and> b < length xs \<and> f a \<longrightarrow> f b"
  proof (intro allI impI)
    fix a b assume ab: "a \<le> b \<and> b < length xs \<and> f a"
    then have "xs ! a \<le> xs ! b" using assms(1) by (simp add: sorted_iff_nth_mono)
    with ab show "f b" unfolding f_def by (meson order_trans)
  qed
  have spec: "(\<forall>k < r. \<not> f k) \<and> (\<forall>k. r \<le> k \<and> k < length xs \<longrightarrow> f k)"
  proof -
    have "(0::nat) \<le> length xs" and "length xs \<le> length xs" and "\<forall>k<0::nat. \<not> f k"
      and "\<forall>k. length xs \<le> k \<and> k < length xs \<longrightarrow> f k"
      by auto
    from Search_loop_spec [OF mono this] show ?thesis
      unfolding Search_def r_def by blast
  qed
  obtain m where m: "m < length xs" "xs ! m = h"
    using assms(2) by (auto simp: in_set_conv_nth)
  have "f m" by (simp add: f_def m(2))
  then have rm: "r \<le> m" using spec by (meson not_le_imp_less)
  then have rl: "r < length xs" using m(1) by simp
  have "f r" using spec rl by simp
  then have "h \<le> xs ! r" by (simp add: f_def)
  moreover have "xs ! r \<le> xs ! m"
    using assms(1) rm m(1) by (simp add: sorted_iff_nth_mono)
  ultimately have "xs ! r = h" using m(2) by simp
  with rl show ?thesis by (simp add: r_def f_def)
qed

lemma Get_stale:
  assumes "sorted (nodes c)" and "hashKey key \<in> set (nodes c)" and "hash c (hashKey key) = None"
  shows "Get c key = []"
proof -
  have "nodes c \<noteq> []" using assms(2) by auto
  then show ?thesis
    using Search_sorted_mem [OF assms(1,2)] assms(3)
    by (simp add: Get_def Let_def hash_at_def)
qed

subsection \<open>Rings with one and two hosts\<close>

lemma char_of_0: "char_of (0::int) = CHR 0x00"
  by (simp add: char_of_def)

lemma vnode_0: "vnode n 0 = hashKey (n @ [CHR 0x00])"
  by (simp add: vnode_def rune_def rune_string_def char_of_0)

lemma zero_in_replicas_1: "0 \<in> set (replicas 1)"
  by (simp add: replicas_def replicationFactor_def)

lemma length_replicas_1: "length (replicas 1) = 100"
  by (simp add: replicas_def replicationFactor_def)

text \<open>
  Claim C2, at its failing input. Host \<^verbatim>\<open>"a"\<close> is added with weight 1 to an empty ring and
  removed again. \<^verbatim>\<open>Remove\<close> empties the hash-to-host map and the weights, but the node list
  is the one before the removal: all 100 virtual-node hashes of \<^verbatim>\<open>"a"\<close> are still in it,
  among them the hash of \<^verbatim>\<open>"a" + string(rune(0))\<close>.
\<close>

theorem Remove_leaves_nodes:
  "(let c = Add hashing_New ''a'' 1; c' = Remove c ''a''
    in length (nodes c) = 100 \<and> nodes c' = nodes c \<and>
       hashKey [CHR ''a'', CHR 0x00] \<in> set (nodes c') \<and>
       hash c' = Map.empty \<and> weights c' = Map.empty)"
proof -
  let ?c = "Add hashing_New ''a'' 1"
  have w: "weight_at ?c ''a'' = 1"
    by (simp add: weight_at_def Add_weights)
  have len: "length (nodes ?c) = 100"
    by (simp add: Add_nodes hashing_New_def length_replicas_1)
  have e: "hash hashing_New = Map.empty"
    by (simp add: hashing_New_def)
  have keep: "nodes (Remove ?c ''a'') = nodes ?c"
    by (rule Remove_keeps_nodes) (simp_all add: Add_hash w e)
  have "vnode ''a'' 0 \<in> set (nodes ?c)"
    using zero_in_replicas_1 by (simp add: Add_nodes)
  then have mem: "hashKey [CHR ''a'', CHR 0x00] \<in> set (nodes (Remove ?c ''a''))"
    by (simp add: keep vnode_0)
  have h: "hash (Remove ?c ''a'') = Map.empty"
    by (rule ext) (simp add: Remove_hash Add_hash w e)
  have ws: "weights (Remove ?c ''a'') = Map.empty"
    by (simp add: Remove_weights Add_weights hashing_New_def)
  show ?thesis using len keep mem h ws by (simp add: Let_def)
qed

text \<open>
  Claim C4, at its failing input. Hosts \<^verbatim>\<open>"b"\<close> and \<^verbatim>\<open>"a"\<close> are added with weight 1 and
  \<^verbatim>\<open>"a"\<close> is removed, so the membership is \<^verbatim>\<open>"b"\<close> alone. The key \<^verbatim>\<open>"a\x00"\<close> hashes to a node
  that \<^verbatim>\<open>Remove\<close> left in the node list and deleted from the hash-to-host map, and \<^verbatim>\<open>Get\<close>
  returns the empty string for it.
\<close>

theorem Get_empty_on_stale_node:
  "(let c = Remove (Add (Add hashing_New ''b'' 1) ''a'' 1) ''a''
    in dom (weights c) = {''b''} \<and> Get c [CHR ''a'', CHR 0x00] = [])"
proof -
  let ?ab = "Add (Add hashing_New ''b'' 1) ''a'' 1"
  let ?c = "Remove ?ab ''a''"
  have w: "weight_at ?ab ''a'' = 1"
    by (simp add: weight_at_def Add_weights)
  have e: "hash hashing_New = Map.empty"
    by (simp add: hashing_New_def)
  have keep: "nodes ?c = nodes ?ab"
    by (rule Remove_keeps_nodes) (simp_all add: Add_hash w e)
  have srt: "sorted (nodes ?c)"
    unfolding keep by (simp add: Add_nodes)
  have "vnode ''a'' 0 \<in> set (nodes ?ab)"
    using zero_in_replicas_1 by (simp add: Add_nodes)
  then have mem: "hashKey [CHR ''a'', CHR 0x00] \<in> set (nodes ?c)"
    by (simp add: keep vnode_0)
  have "vnode ''a'' 0 \<in> vnode ''a'' ` set (replicas 1)"
    using zero_in_replicas_1 by (rule imageI)
  then have "hash ?c (vnode ''a'' 0) = None"
    by (simp add: Remove_hash w)
  then have gone: "hash ?c (hashKey [CHR ''a'', CHR 0x00]) = None"
    by (simp add: vnode_0)
  have "Get ?c [CHR ''a'', CHR 0x00] = []"
    by (rule Get_stale [OF srt mem gone])
  moreover have "dom (weights ?c) = {''b''}"
    by (auto simp: Remove_weights Add_weights hashing_New_def)
  ultimately show ?thesis by (simp add: Let_def)
qed

section \<open>Properties of the connection pool\<close>

subsection \<open>Reading and writing buckets\<close>

lemma set_update_subset: "set (AList.update k v al) \<subseteq> insert (k, v) (set al)"
  by (induction al) auto

lemma set_delete_subset: "set (AList.delete k al) \<subseteq> set al"
  by (auto simp: AList.delete_eq)

lemma bucket_capped: "idle_capped p \<Longrightarrow> int (length (bucket p a)) \<le> maxIdle p"
  by (auto simp: idle_capped_def bucket_def split: option.splits dest!: map_of_SomeD)

lemma idle_capped_update:
  "idle_capped p \<Longrightarrow> int (length v) \<le> maxIdle p \<Longrightarrow>
   idle_capped (p\<lparr>idle := AList.update a v (idle p)\<rparr>)"
  using set_update_subset [of a v "idle p"] by (auto simp: idle_capped_def)

lemma idle_capped_delete:
  "idle_capped p \<Longrightarrow> idle_capped (p\<lparr>idle := AList.delete a (idle p)\<rparr>)"
  using set_delete_subset [of a "idle p"] by (auto simp: idle_capped_def)

lemma idle_capped_active: "idle_capped (p\<lparr>active := n\<rparr>) = idle_capped p"
  by (simp add: idle_capped_def)

lemma idle_capped_empty: "idle_capped p \<Longrightarrow> idle_capped (p\<lparr>idle := []\<rparr>)"
  by (simp add: idle_capped_def)

subsection \<open>Every operation keeps the idle cap\<close>

lemma createConn_capped: "idle_capped p \<Longrightarrow> idle_capped (snd (createConn p addr d))"
  by (simp add: createConn_def idle_capped_active split: option.splits)

lemma createConn_maxIdle: "maxIdle (snd (createConn p addr d)) = maxIdle p"
  by (simp add: createConn_def split: option.splits)

lemma Get_capped:
  assumes "idle_capped p"
  shows "idle_capped (fst (snd (Pool_Get p addr now d)))"
proof (cases "map_of (idle p) addr")
  case None
  then show ?thesis
    using createConn_capped [OF assms, of addr d]
    by (simp add: Pool_Get_def split_beta)
next
  case (Some conns)
  have "int (length conns) \<le> maxIdle p"
    using assms Some by (auto simp: idle_capped_def dest!: map_of_SomeD)
  then have "int (length (butlast conns)) \<le> maxIdle p" by simp
  then have popped: "idle_capped (p\<lparr>idle := AList.update addr (butlast conns) (idle p)\<rparr>)"
    by (rule idle_capped_update [OF assms])
  show ?thesis
    using Some createConn_capped [OF assms, of addr d] createConn_capped [OF popped, of addr d]
      popped
    by (simp add: Pool_Get_def split_beta Let_def idle_capped_active)
qed

lemma Get_maxIdle: "maxIdle (fst (snd (Pool_Get p addr now d))) = maxIdle p"
  by (simp add: Pool_Get_def split_beta Let_def createConn_maxIdle split: option.splits)

lemma Put_capped:
  assumes "idle_capped p"
  shows "idle_capped (fst (snd (Pool_Put p cn now ce)))"
proof -
  let ?p1 = "p\<lparr>active := active p - 1\<rparr>"
  have dec: "idle_capped ?p1" using assms by (simp add: idle_capped_active)
  have "\<not> maxIdle ?p1 \<le> int (length (bucket ?p1 (RemoteAddr cn))) \<Longrightarrow>
        idle_capped (?p1\<lparr>idle := AList.update (RemoteAddr cn)
           (bucket ?p1 (RemoteAddr cn) @ [\<lparr>conn = cn, timeAdded = now\<rparr>]) (idle ?p1)\<rparr>)"
    by (rule idle_capped_update [OF dec]) simp
  then show ?thesis
    using assms dec by (auto simp: Pool_Put_def Let_def)
qed

lemma Put_maxIdle: "maxIdle (fst (snd (Pool_Put p cn now ce))) = maxIdle p"
  by (simp add: Pool_Put_def Let_def)

text \<open>The range loop of \<^verbatim>\<open>Close\<close> deletes the keys it has seen and closes their connections.\<close>

lemma Close_loop_eq:
  "Close_loop es p acc =
     (p\<lparr>idle := filter (\<lambda>(k, _). k \<notin> fst ` set es) (idle p)\<rparr>,
      acc @ concat (map (\<lambda>(a, cs). map conn cs) es))"
proof (induction es arbitrary: p acc)
  case Nil
  then show ?case by simp
next
  case (Cons e es)
  obtain a cs where e: "e = (a, cs)" by (cases e)
  have "filter (\<lambda>(k, _). k \<notin> fst ` set es) (AList.delete a (idle p)) =
        filter (\<lambda>(k, _). k \<notin> fst ` set (e # es)) (idle p)"
    unfolding e AList.delete_eq by (auto intro: filter_cong)
  then show ?case using Cons.IH by (simp add: e)
qed

lemma Pool_Close_eq:
  "Pool_Close p = (None, p\<lparr>idle := []\<rparr>, concat (map (\<lambda>(a, cs). map conn cs) (idle p)))"
proof -
  have "filter (\<lambda>(k, _). k \<notin> fst ` set (idle p)) (idle p) = []"
    by (auto simp: filter_empty_conv intro: rev_image_eqI)
  then show ?thesis by (simp add: Pool_Close_def Close_loop_eq)
qed

lemma cleanup_loop_capped:
  "idle_capped p \<Longrightarrow> \<forall>(a, cs) \<in> set es. int (length cs) \<le> maxIdle p \<Longrightarrow>
   idle_capped (fst (cleanup_loop es now p acc)) \<and>
   maxIdle (fst (cleanup_loop es now p acc)) = maxIdle p"
proof (induction es arbitrary: p acc)
  case Nil
  then show ?case by simp
next
  case (Cons e es)
  obtain a cs where e: "e = (a, cs)" by (cases e)
  let ?valid = "filter (\<lambda>ic. \<not> idleTimeout p < now - timeAdded ic) cs"
  let ?p1 = "if length ?valid = 0 then p\<lparr>idle := AList.delete a (idle p)\<rparr>
             else p\<lparr>idle := AList.update a ?valid (idle p)\<rparr>"
  have "int (length cs) \<le> maxIdle p" using Cons.prems(2) by (simp add: e)
  moreover have "length ?valid \<le> length cs" by simp
  ultimately have v: "int (length ?valid) \<le> maxIdle p" by linarith
  have p1: "idle_capped ?p1"
    using idle_capped_delete [OF Cons.prems(1)] idle_capped_update [OF Cons.prems(1) v] by simp
  have m: "maxIdle ?p1 = maxIdle p" by simp
  have es: "\<forall>(a, cs) \<in> set es. int (length cs) \<le> maxIdle ?p1"
    using Cons.prems(2) by (simp add: m del: length_0_conv)
  show ?case
    using Cons.IH [OF p1 es] m by (simp add: e Let_def del: length_0_conv)
qed

lemma cleanup_capped:
  "idle_capped p \<Longrightarrow>
   idle_capped (fst (cleanup p now)) \<and> maxIdle (fst (cleanup p now)) = maxIdle p"
  unfolding cleanup_def by (rule cleanup_loop_capped) (auto simp: idle_capped_def)

lemma step_capped:
  "idle_capped p \<Longrightarrow> idle_capped (pool_step p x) \<and> maxIdle (pool_step p x) = maxIdle p"
  by (cases x) (simp_all add: Get_capped Get_maxIdle Put_capped Put_maxIdle idle_capped_empty
      Pool_Close_eq cleanup_capped)

lemma run_capped:
  "idle_capped p \<Longrightarrow> idle_capped (pool_run p ops) \<and> maxIdle (pool_run p ops) = maxIdle p"
  unfolding pool_run_def
  by (induction ops arbitrary: p) (simp_all add: step_capped)

lemma New_capped: "connpool_New c = Inr p \<Longrightarrow> idle_capped p \<and> maxIdle p = MaxIdle c"
  by (auto simp: connpool_New_def idle_capped_def split: if_splits)

text \<open>
  Claim C8. In every pool state reached from a pool that \<^verbatim>\<open>New\<close> returned, by any sequence
  of \<^verbatim>\<open>Get\<close>, \<^verbatim>\<open>Put\<close>, \<^verbatim>\<open>Close\<close> and cleanup rounds, the idle bucket of every address holds
  at most \<^verbatim>\<open>maxIdle\<close> entries, \<^verbatim>\<open>maxIdle\<close> being the configured value; and a \<^verbatim>\<open>Put\<close> that
  finds the bucket of its connection at \<^verbatim>\<open>maxIdle\<close> closes the connection and leaves the
  idle map as it is.
\<close>

theorem pool_idle_cap:
  assumes "connpool_New c = Inr p0"
  shows "let p = pool_run p0 ops in
           int (length (bucket p addr)) \<le> maxIdle p \<and> maxIdle p = MaxIdle c \<and>
           (0 < active p \<and> int (length (bucket p (RemoteAddr cn))) = maxIdle p \<longrightarrow>
              Pool_Put p cn now closeErr = (closeErr, p\<lparr>active := active p - 1\<rparr>, [cn]))"
proof -
  let ?p = "pool_run p0 ops"
  have inv: "idle_capped ?p" and m: "maxIdle ?p = MaxIdle c"
    using New_capped [OF assms] run_capped [of p0 ops] by simp_all
  have "int (length (bucket ?p addr)) \<le> maxIdle ?p"
    by (rule bucket_capped [OF inv])
  moreover have "0 < active ?p \<and> int (length (bucket ?p (RemoteAddr cn))) = maxIdle ?p \<longrightarrow>
      Pool_Put ?p cn now closeErr = (closeErr, ?p\<lparr>active := active ?p - 1\<rparr>, [cn])"
    by (simp add: Pool_Put_def Let_def bucket_def)
  ultimately show ?thesis using m by (simp add: Let_def)
qed

theorem pool_idle_cap_witness:
  "connpool_New \<lparr>MaxIdle = 1, MaxActive = 2, IdleTimeout = 60\<rparr> =
     Inr \<lparr>maxIdle = 1, maxActive = 2, idleTimeout = 60, active = 0, idle = []\<rparr> \<and>
   (let p = pool_run \<lparr>maxIdle = 1, maxActive = 2, idleTimeout = 60, active = 0, idle = []\<rparr>
              [OpGet ''a:1'' 0 (\<lambda>_. Some \<lparr>conn_id = 1, RemoteAddr = ''a:1''\<rparr>),
               OpGet ''a:1'' 1 (\<lambda>_. Some \<lparr>conn_id = 2, RemoteAddr = ''a:1''\<rparr>),
               OpPut \<lparr>conn_id = 1, RemoteAddr = ''a:1''\<rparr> 2 None]
    in int (length (bucket p ''a:1'')) \<le> maxIdle p \<and> maxIdle p = 1 \<and>
       0 < active p \<and> int (length (bucket p ''a:1'')) = maxIdle p \<and>
       Pool_Put p \<lparr>conn_id = 2, RemoteAddr = ''a:1''\<rparr> 3 None =
         (None, p\<lparr>active := active p - 1\<rparr>, [\<lparr>conn_id = 2, RemoteAddr = ''a:1''\<rparr>]))"
proof -
  have new: "connpool_New \<lparr>MaxIdle = 1, MaxActive = 2, IdleTimeout = 60\<rparr> =
     Inr \<lparr>maxIdle = 1, maxActive = 2, idleTimeout = 60, active = 0, idle = []\<rparr>"
    by (simp add: connpool_New_def)
  show ?thesis
    using new pool_idle_cap [OF new, where addr = "''a:1''"
        and cn = "\<lparr>conn_id = 2, RemoteAddr = ''a:1''\<rparr>" and now = 3 and closeErr = None
        and ops = "[OpGet ''a:1'' 0 (\<lambda>_. Some \<lparr>conn_id = 1, RemoteAddr = ''a:1''\<rparr>),
               OpGet ''a:1'' 1 (\<lambda>_. Some \<lparr>conn_id = 2, RemoteAddr = ''a:1''\<rparr>),
               OpPut \<lparr>conn_id = 1, RemoteAddr = ''a:1''\<rparr> 2 None]"]
    by (simp add: Let_def pool_run_def Pool_Get_def Pool_Put_def createConn_def bucket_def)
qed

text \<open>
  Claim C1, at its failing input. The pool is built with \<^verbatim>\<open>maxActive = 1\<close>. A connection to
  a first address is acquired and released, so it sits in the idle bucket with \<^verbatim>\<open>active = 0\<close>;
  a connection to a second address is dialled, which brings \<^verbatim>\<open>active\<close> to \<^verbatim>\<open>maxActive\<close>. The
  next \<^verbatim>\<open>Get\<close> for the first address, two nanoseconds after the release and far inside the
  idle timeout, returns the idle connection and raises \<^verbatim>\<open>active\<close> to 2: the idle branch of
  \<^verbatim>\<open>Get\<close> increments \<^verbatim>\<open>active\<close> without the comparison that \<^verbatim>\<open>createConn\<close> makes.
\<close>

theorem Get_idle_exceeds_maxActive:
  "connpool_New \<lparr>MaxIdle = 1, MaxActive = 1, IdleTimeout = 60000000000\<rparr> =
     Inr \<lparr>maxIdle = 1, maxActive = 1, idleTimeout = 60000000000, active = 0, idle = []\<rparr> \<and>
   (let p3 = pool_run
               \<lparr>maxIdle = 1, maxActive = 1, idleTimeout = 60000000000, active = 0, idle = []\<rparr>
               [OpGet ''10.0.0.1:9001'' 0
                  (\<lambda>_. Some \<lparr>conn_id = 1, RemoteAddr = ''10.0.0.1:9001''\<rparr>),
                OpPut \<lparr>conn_id = 1, RemoteAddr = ''10.0.0.1:9001''\<rparr> 1 None,
                OpGet ''10.0.0.2:9001'' 2
                  (\<lambda>_. Some \<lparr>conn_id = 2, RemoteAddr = ''10.0.0.2:9001''\<rparr>)]
    in active p3 = 1 \<and> maxActive p3 = 1 \<and>
       Pool_Get p3 ''10.0.0.1:9001'' 3 (\<lambda>_. None) =
         (Inr \<lparr>conn_id = 1, RemoteAddr = ''10.0.0.1:9001''\<rparr>,
          \<lparr>maxIdle = 1, maxActive = 1, idleTimeout = 60000000000, active = 2,
            idle = [(''10.0.0.1:9001'', [])]\<rparr>,
          []))"
  by (simp add: connpool_New_def Let_def pool_run_def Pool_Get_def Pool_Put_def createConn_def
      bucket_def)

text \<open>
  Claim C7, at its failing input. \<^verbatim>\<open>New\<close> compares only \<^verbatim>\<open>MaxIdle\<close> and \<^verbatim>\<open>MaxActive\<close> with
  zero: with both positive it returns a pool for an idle timeout of zero and for a negative
  one. \<^verbatim>\<open>validate\<close> of package config rejects the same pool section for its idle timeout.
\<close>

theorem New_accepts_nonpositive_idleTimeout:
  "connpool_New \<lparr>MaxIdle = 1, MaxActive = 1, IdleTimeout = 0\<rparr> =
     Inr \<lparr>maxIdle = 1, maxActive = 1, idleTimeout = 0, active = 0, idle = []\<rparr> \<and>
   connpool_New \<lparr>MaxIdle = 1, MaxActive = 1, IdleTimeout = - 5\<rparr> =
     Inr \<lparr>maxIdle = 1, maxActive = 1, idleTimeout = - 5, active = 0, idle = []\<rparr> \<and>
   validate
     \<lparr>Balancer = \<lparr>BalancerPort = 9000, HealthCheckInterval = 1000000000,
                  FailureThreshold = Finite 8\<rparr>,
      Backends = [\<lparr>Host = ''10.0.0.9'', Port = 9001, Weight = 1\<rparr>],
      Pool = \<lparr>MaxIdle = 1, MaxActive = 1, IdleTimeout = 0\<rparr>\<rparr> = Some InvalidIdleTimeout"
  by (simp add: connpool_New_def validate_def)

text \<open>
  Claim C10. \<^verbatim>\<open>Close\<close> returns no error, closes the connections of every entry of the idle
  map and leaves a pool that differs from the one before in its idle map only, which is
  empty: \<^verbatim>\<open>active\<close>, \<^verbatim>\<open>maxIdle\<close>, \<^verbatim>\<open>maxActive\<close> and \<^verbatim>\<open>idleTimeout\<close> are as before, and the
  pool has no other field. So \<^verbatim>\<open>Put\<close> and \<^verbatim>\<open>Get\<close> after \<^verbatim>\<open>Close\<close> are \<^verbatim>\<open>Put\<close> and \<^verbatim>\<open>Get\<close> on
  that pool with no idle entry: \<^verbatim>\<open>Get\<close> goes to \<^verbatim>\<open>createConn\<close>, and it dials and returns a
  new connection when \<^verbatim>\<open>active < maxActive\<close> and the dial succeeds.
\<close>

theorem Pool_Close_frame:
  "Pool_Close p =
     (None, p\<lparr>idle := []\<rparr>, concat (map (\<lambda>(addr, conns). map conn conns) (idle p))) \<and>
   Pool_Put (fst (snd (Pool_Close p))) cn now closeErr =
     Pool_Put (p\<lparr>idle := []\<rparr>) cn now closeErr \<and>
   Pool_Get (fst (snd (Pool_Close p))) addr now dialFunc =
     (let (r, q) = createConn (p\<lparr>idle := []\<rparr>) addr dialFunc in (r, q, [])) \<and>
   (active p < maxActive p \<and> dialFunc addr = Some cn' \<longrightarrow>
      Pool_Get (fst (snd (Pool_Close p))) addr now dialFunc =
        (Inr cn', p\<lparr>idle := [], active := active p + 1\<rparr>, []))"
  by (simp add: Pool_Close_eq Pool_Get_def createConn_def)

theorem Pool_Close_frame_witness:
  "(let p = \<lparr>maxIdle = 1, maxActive = 1, idleTimeout = 60, active = 0,
             idle = [(''a:1'', [\<lparr>conn = \<lparr>conn_id = 1, RemoteAddr = ''a:1''\<rparr>,
                                 timeAdded = 5\<rparr>])]\<rparr>
    in active p < maxActive p \<and>
       Pool_Close p = (None, p\<lparr>idle := []\<rparr>, [\<lparr>conn_id = 1, RemoteAddr = ''a:1''\<rparr>]) \<and>
       Pool_Get (fst (snd (Pool_Close p))) ''a:1'' 6
           (\<lambda>_. Some \<lparr>conn_id = 2, RemoteAddr = ''a:1''\<rparr>) =
         (Inr \<lparr>conn_id = 2, RemoteAddr = ''a:1''\<rparr>, p\<lparr>idle := [], active := 1\<rparr>, []))"
  using Pool_Close_frame [of "\<lparr>maxIdle = 1, maxActive = 1, idleTimeout = 60, active = 0,
             idle = [(''a:1'', [\<lparr>conn = \<lparr>conn_id = 1, RemoteAddr = ''a:1''\<rparr>,
                                 timeAdded = 5\<rparr>])]\<rparr>"
      "\<lparr>conn_id = 1, RemoteAddr = ''a:1''\<rparr>" 6 None "''a:1''"
      "\<lambda>_. Some \<lparr>conn_id = 2, RemoteAddr = ''a:1''\<rparr>" "\<lparr>conn_id = 2, RemoteAddr = ''a:1''\<rparr>"]
  by (auto simp: Let_def Pool_Close_eq)

section \<open>Properties of the failure detector\<close>

subsection \<open>The hosts a tick probes\<close>

lemma fold_add_backend_checker: "checker (fold add_backend bs b) = checker b"
  by (induction bs arbitrary: b) (simp_all add: add_backend_def Let_def)

lemma balancer_New_histories: "balancer_New c = Inr b \<Longrightarrow> histories (checker b) = []"
  by (auto simp: balancer_New_def fold_add_backend_checker health_New_def split: sum.splits)

lemma checkAll_no_histories: "histories c = [] \<Longrightarrow> checkAll fm c now probe = (c, [])"
  by (simp add: checkAll_def)

lemma detector_tick_no_histories:
  "histories (checker b) = [] \<Longrightarrow> detector_tick fm b now probe = (b, [])"
  by (simp add: detector_tick_def checkAll_no_histories)

lemma detector_ticks_no_histories:
  "histories (checker b) = [] \<Longrightarrow> detector_ticks fm b ts = (b, [])"
  by (induction ts) (auto simp: detector_tick_no_histories)

lemma decimal_9001: "decimal 9001 = ''9001''"
  by (simp add: decimal.simps [of 9001] decimal.simps [of 900] decimal.simps [of 90]
      decimal.simps [of 9] digit_def)

text \<open>
  Claim C3, at its failing input. The balancer is built for one backend, \<^verbatim>\<open>10.0.0.9:9001\<close>,
  whose port is closed: every probe would fail. \<^verbatim>\<open>checkAll\<close> takes its hosts from the keys of
  \<^verbatim>\<open>c.histories\<close>, which \<^verbatim>\<open>health.New\<close> leaves empty and only \<^verbatim>\<open>recordSuccess\<close> fills, and
  \<^verbatim>\<open>recordSuccess\<close> runs only for a host that \<^verbatim>\<open>checkAll\<close> probes. Three ticks probe no host and
  call the callback for none: the balancer is as it was, the backend still flagged healthy.
\<close>

theorem detector_probes_nothing:
  "(case balancer_New
           \<lparr>Balancer = \<lparr>BalancerPort = 9000, HealthCheckInterval = 1000000000,
                        FailureThreshold = Finite 8\<rparr>,
            Backends = [\<lparr>Host = ''10.0.0.9'', Port = 9001, Weight = 1\<rparr>],
            Pool = \<lparr>MaxIdle = 2, MaxActive = 2, IdleTimeout = 60000000000\<rparr>\<rparr> of
      Inl err \<Rightarrow> False
    | Inr b \<Rightarrow>
        map_option health (backends b ''10.0.0.9:9001'') = Some True \<and>
        map fst (histories (checker b)) = [] \<and>
        detector_ticks real_math b
          [(1000000000, \<lambda>_. None), (2000000000, \<lambda>_. None), (3000000000, \<lambda>_. None)] = (b, []))"
proof -
  let ?c = "\<lparr>Balancer = \<lparr>BalancerPort = 9000, HealthCheckInterval = 1000000000,
                        FailureThreshold = Finite 8\<rparr>,
            Backends = [\<lparr>Host = ''10.0.0.9'', Port = 9001, Weight = 1\<rparr>],
            Pool = \<lparr>MaxIdle = 2, MaxActive = 2, IdleTimeout = 60000000000\<rparr>\<rparr>"
  obtain b where b: "balancer_New ?c = Inr b"
    by (simp add: balancer_New_def connpool_New_def)
  have h: "histories (checker b) = []" by (rule balancer_New_histories [OF b])
  have "map_option health (backends b ''10.0.0.9:9001'') = Some True"
    using b by (auto simp: balancer_New_def connpool_New_def add_backend_def Let_def host_port_def
        decimal_9001)
  moreover have "detector_ticks real_math b
          [(1000000000, \<lambda>_. None), (2000000000, \<lambda>_. None), (3000000000, \<lambda>_. None)] = (b, [])"
    by (rule detector_ticks_no_histories [OF h])
  ultimately show ?thesis
    using h by (simp add: b del: detector_ticks.simps)
qed

subsection \<open>A host without a recorded success\<close>

lemma threshold_positive: "thr \<noteq> NaN \<Longrightarrow> f64_less (Finite 0) (phiThreshold (health_New itv thr))"
  by (cases thr) (simp_all add: health_New_def defaultPhiThreshold_def)

lemma record_step_frame:
  "phiThreshold (record_step fm c e) = phiThreshold c"
  by (cases e) (simp_all add: recordSuccess_def recordFailure_def Let_def)

lemma record_step_no_history:
  "\<not> success_on hst e \<Longrightarrow> map_of (histories c) hst = None \<Longrightarrow>
   map_of (histories (record_step fm c e)) hst = None"
  by (cases e) (simp_all add: recordSuccess_def recordFailure_def Let_def update_conv')

lemma record_run_frame: "phiThreshold (record_run fm c evs) = phiThreshold c"
  unfolding record_run_def by (induction evs arbitrary: c) (simp_all add: record_step_frame)

lemma record_run_no_history:
  "\<forall>e \<in> set evs. \<not> success_on hst e \<Longrightarrow> map_of (histories c) hst = None \<Longrightarrow>
   map_of (histories (record_run fm c evs)) hst = None"
  unfolding record_run_def
  by (induction evs arbitrary: c) (simp_all add: record_step_no_history)

lemma phi_no_history: "map_of (histories c) hst = None \<Longrightarrow> phi fm c hst now = Finite 0"
  by (simp add: phi_def split: option.splits)

text \<open>
  Claim C9, as amended. Let the checker be built by \<^verbatim>\<open>New\<close> and let it record any successes
  and failures, none of them a success on the host. Then \<^verbatim>\<open>phi\<close> of the host is 0.0 at every
  time, and \<^verbatim>\<open>IsHealthy\<close> of the host is true provided the threshold given to \<^verbatim>\<open>New\<close> is not
  NaN.
\<close>

theorem phi_zero_without_success:
  assumes "\<forall>e \<in> set evs. \<not> success_on hst e"
  shows "phi fm (record_run fm (health_New itv thr) evs) hst now = Finite 0 \<and>
         (thr \<noteq> NaN \<longrightarrow> IsHealthy fm (record_run fm (health_New itv thr) evs) hst now)"
proof -
  have "map_of (histories (health_New itv thr)) hst = None"
    by (simp add: health_New_def)
  then have "map_of (histories (record_run fm (health_New itv thr) evs)) hst = None"
    by (rule record_run_no_history [OF assms])
  then have z: "phi fm (record_run fm (health_New itv thr) evs) hst now = Finite 0"
    by (rule phi_no_history)
  then show ?thesis
    by (simp add: IsHealthy_def record_run_frame threshold_positive)
qed

theorem phi_zero_without_success_witness:
  "\<not> success_on ''10.0.0.9:9001'' (Failure ''10.0.0.9:9001'' 1000000000) \<and>
   \<not> success_on ''10.0.0.9:9001'' (Success ''10.0.0.8:9001'' 700000 2000000000) \<and>
   \<not> success_on ''10.0.0.9:9001'' (Failure ''10.0.0.9:9001'' 3000000000) \<and>
   phi real_math
     (record_run real_math (health_New 1000000000 (Finite 8))
        [Failure ''10.0.0.9:9001'' 1000000000, Success ''10.0.0.8:9001'' 700000 2000000000,
         Failure ''10.0.0.9:9001'' 3000000000])
     ''10.0.0.9:9001'' 9000000000 = Finite 0 \<and>
   IsHealthy real_math
     (record_run real_math (health_New 1000000000 (Finite 8))
        [Failure ''10.0.0.9:9001'' 1000000000, Success ''10.0.0.8:9001'' 700000 2000000000,
         Failure ''10.0.0.9:9001'' 3000000000])
     ''10.0.0.9:9001'' 9000000000"
  using phi_zero_without_success [of "[Failure ''10.0.0.9:9001'' 1000000000,
         Success ''10.0.0.8:9001'' 700000 2000000000, Failure ''10.0.0.9:9001'' 3000000000]"
      "''10.0.0.9:9001''" real_math 1000000000 "Finite 8" 9000000000]
  by simp

text \<open>
  Claim C9 as stated fails for a NaN threshold. \<^verbatim>\<open>validate\<close> accepts it and \<^verbatim>\<open>New\<close> keeps it,
  since \<^verbatim>\<open>NaN <= 0\<close> is false; and \<^verbatim>\<open>0.0 < NaN\<close> is false, so a host with one recorded
  failure and no success is not healthy.
\<close>

theorem IsHealthy_false_for_NaN_threshold:
  "validate
     \<lparr>Balancer = \<lparr>BalancerPort = 9000, HealthCheckInterval = 1000000000,
                  FailureThreshold = NaN\<rparr>,
      Backends = [\<lparr>Host = ''10.0.0.9'', Port = 9001, Weight = 1\<rparr>],
      Pool = \<lparr>MaxIdle = 2, MaxActive = 2, IdleTimeout = 60000000000\<rparr>\<rparr> = None \<and>
   phiThreshold (health_New 1000000000 NaN) = NaN \<and>
   \<not> IsHealthy real_math
       (record_run real_math (health_New 1000000000 NaN) [Failure ''10.0.0.9:9001'' 1000000000])
       ''10.0.0.9:9001'' 2000000000"
  by (simp add: validate_def IsHealthy_def phi_def record_run_def recordFailure_def
      health_New_def)

subsection \<open>What recordSuccess stores\<close>

text \<open>
  In every checker state reached from \<^verbatim>\<open>New\<close>, the history of a host (a new one if the host
  has none) has \<^verbatim>\<open>sampleSize\<close> slots and its index inside them, and its cached statistics
  are the ones \<^verbatim>\<open>updateStats\<close> computes from its buffer. While a host has at most
  \<^verbatim>\<open>sampleSize\<close> successes, its live samples are their durations in order, the mean is the
  truncated quotient of their sum by their number, and the deviation is the floating-point
  computation applied to these samples and this mean.
\<close>

lemma updateStats_frame:
  "times_buf (updateStats fm h) = times_buf h \<and> index (updateStats fm h) = index h \<and>
   count (updateStats fm h) = count h"
  by (simp add: updateStats_def Let_def)

lemma updateStats_idem: "updateStats fm (updateStats fm h) = updateStats fm h"
  by (simp add: updateStats_def Let_def)

lemma history_ok_updateStats: "history_ok (updateStats fm h) = history_ok h"
  by (simp add: history_ok_def updateStats_frame)

lemma history_ok_new: "history_ok new_history"
  by (simp add: history_ok_def new_history_def sampleSize_def)

lemma history_ok_push: "history_ok h \<Longrightarrow> history_ok (push_sample h d)"
  by (simp add: history_ok_def push_sample_def sampleSize_def)

lemma record_run_snoc: "record_run fm c (evs @ [e]) = record_step fm (record_run fm c evs) e"
  by (simp add: record_run_def)

lemma durations_on_snoc:
  "durations_on hst (evs @ [e]) =
     durations_on hst evs @ (case e of Success h d now \<Rightarrow> if h = hst then [d] else []
                                      | Failure h now \<Rightarrow> [])"
  by (induction hst evs rule: durations_on.induct) (simp_all split: record_event.splits)

lemma history_after_recordSuccess:
  "history_or_new (recordSuccess fm c h d now) hst =
     (if h = hst then updateStats fm (push_sample (history_or_new c hst) d)
      else history_or_new c hst)"
  by (simp add: recordSuccess_def history_or_new_def Let_def update_conv')

lemma history_after_recordFailure:
  "history_or_new (recordFailure c h now) hst = history_or_new c hst"
  by (simp add: recordFailure_def history_or_new_def)

lemma history_or_new_ok:
  "history_ok (history_or_new (record_run fm (health_New itv thr) evs) hst)"
proof (induction evs rule: rev_induct)
  case Nil
  then show ?case
    by (simp add: record_run_def health_New_def history_or_new_def history_ok_new)
next
  case (snoc e evs)
  then show ?case
    by (cases e)
      (simp_all add: record_run_snoc history_after_recordSuccess history_after_recordFailure history_ok_updateStats history_ok_push)
qed

lemma history_stats_current:
  "updateStats fm (history_or_new (record_run fm (health_New itv thr) evs) hst) =
   history_or_new (record_run fm (health_New itv thr) evs) hst"
proof (induction evs rule: rev_induct)
  case Nil
  then show ?case
    by (simp add: record_run_def health_New_def history_or_new_def new_history_def
        updateStats_def)
next
  case (snoc e evs)
  then show ?case
    by (cases e) (simp_all add: record_run_snoc history_after_recordSuccess history_after_recordFailure updateStats_idem)
qed

lemma slot_update:
  assumes "length ds < 1000"
  shows "(ds @ replicate (1000 - length ds) (0::int))[length ds := d] =
         (ds @ [d]) @ replicate (1000 - length (ds @ [d])) 0"
proof -
  have "1000 - length ds = Suc (1000 - length (ds @ [d]))" using assms by simp
  then show ?thesis by (simp add: list_update_append)
qed

lemma buffer_after_successes:
  assumes "length (durations_on hst evs) \<le> 1000"
  shows "times_buf (history_or_new (record_run fm (health_New itv thr) evs) hst) =
           durations_on hst evs @ replicate (1000 - length (durations_on hst evs)) 0 \<and>
         index (history_or_new (record_run fm (health_New itv thr) evs) hst) =
           int (length (durations_on hst evs)) mod 1000 \<and>
         count (history_or_new (record_run fm (health_New itv thr) evs) hst) =
           int (length (durations_on hst evs))"
  using assms
proof (induction evs rule: rev_induct)
  case Nil
  then show ?case
    by (simp add: record_run_def health_New_def history_or_new_def new_history_def
        sampleSize_def)
next
  case (snoc e evs)
  let ?h = "history_or_new (record_run fm (health_New itv thr) evs) hst"
  let ?ds = "durations_on hst evs"
  show ?case
  proof (cases e)
    case (Failure h now)
    then show ?thesis
      using snoc by (simp add: record_run_snoc durations_on_snoc history_after_recordSuccess history_after_recordFailure)
  next
    case (Success h d now)
    show ?thesis
    proof (cases "h = hst")
      case False
      then show ?thesis
        using snoc Success by (simp add: record_run_snoc durations_on_snoc history_after_recordSuccess history_after_recordFailure)
    next
      case True
      have len: "length ?ds < 1000"
        using snoc.prems Success True by (simp add: durations_on_snoc)
      then have IH: "times_buf ?h = ?ds @ replicate (1000 - length ?ds) 0"
        "index ?h = int (length ?ds)" "count ?h = int (length ?ds)"
        using snoc.IH by simp_all
      have upd: "(?ds @ replicate (1000 - length ?ds) (0::int))[length ?ds := d] =
         (?ds @ [d]) @ replicate (1000 - length (?ds @ [d])) 0"
        by (rule slot_update [OF len])
      have "times_buf (push_sample ?h d) = (?ds @ [d]) @ replicate (1000 - length (?ds @ [d])) 0"
        using upd by (simp add: push_sample_def IH)
      moreover have "index (push_sample ?h d) = int (length (?ds @ [d])) mod 1000"
        by (simp add: push_sample_def IH sampleSize_def add.commute)
      moreover have "count (push_sample ?h d) = int (length (?ds @ [d]))"
        using len by (simp add: push_sample_def IH sampleSize_def)
      ultimately show ?thesis
        unfolding Success True record_run_snoc durations_on_snoc
        by (simp add: history_after_recordSuccess updateStats_frame)
    qed
  qed
qed

lemma statistics_after_successes:
  assumes "durations_on hst evs \<noteq> []" and "length (durations_on hst evs) \<le> 1000"
  shows "map_of (histories (record_run fm (health_New itv thr) evs)) hst =
           Some \<lparr>times_buf = durations_on hst evs @
                              replicate (1000 - length (durations_on hst evs)) 0,
                 index = int (length (durations_on hst evs)) mod 1000,
                 count = int (length (durations_on hst evs)),
                 mean = quot (sum_list (durations_on hst evs))
                          (int (length (durations_on hst evs))),
                 stdDev = stdDev_of fm (durations_on hst evs)
                            (quot (sum_list (durations_on hst evs))
                               (int (length (durations_on hst evs))))\<rparr>"
proof -
  let ?c = "record_run fm (health_New itv thr) evs"
  let ?h = "history_or_new ?c hst"
  let ?ds = "durations_on hst evs"
  note buf = buffer_after_successes [OF assms(2), of fm itv thr]
  have cnt: "count ?h \<noteq> 0" using buf assms(1) by simp
  have live: "take (nat (count ?h)) (times_buf ?h) = ?ds" using buf by simp
  have "?h = updateStats fm ?h" by (rule history_stats_current [symmetric])
  also have "\<dots> = ?h\<lparr>mean := quot (sum_list ?ds) (count ?h),
                       stdDev := stdDev_of fm ?ds (quot (sum_list ?ds) (count ?h))\<rparr>"
    using cnt live by (simp add: updateStats_def Let_def)
  finally have h: "?h = \<lparr>times_buf = ?ds @ replicate (1000 - length ?ds) 0,
      index = int (length ?ds) mod 1000, count = int (length ?ds),
      mean = quot (sum_list ?ds) (int (length ?ds)),
      stdDev = stdDev_of fm ?ds (quot (sum_list ?ds) (int (length ?ds)))\<rparr>"
    using buf by (cases ?h) simp
  have "map_of (histories ?c) hst \<noteq> None"
  proof
    assume "map_of (histories ?c) hst = None"
    then have "count ?h = 0" by (simp add: history_or_new_def new_history_def)
    with cnt show False by simp
  qed
  then have "map_of (histories ?c) hst = Some ?h"
    by (auto simp: history_or_new_def)
  with h show ?thesis by simp
qed

section \<open>Properties of a client connection\<close>

lemma conn_inv_init: "conn_inv conn_init"
  by (simp add: conn_inv_def conn_init_def sent_def)

lemma conn_inv_step:
  assumes "conn_inv s" and "conn_step s e = Some s1"
  shows "conn_inv s1"
proof (cases e)
  case (CopyReturns t)
  with assms show ?thesis
    by (cases t; cases "handler s";
        clarsimp simp: conn_inv_def sent_def task_of_def set_task_def split: if_splits)
next
  case (Send t)
  with assms show ?thesis
    by (cases t; cases "handler s";
        clarsimp simp: conn_inv_def sent_def task_of_def set_task_def split: if_splits)
qed (use assms in \<open>cases "handler s"; clarsimp simp: conn_inv_def sent_def split: if_splits\<close>)+

lemma conn_inv_run: "conn_inv s \<Longrightarrow> conn_run s es = Some s1 \<Longrightarrow> conn_inv s1"
proof (induction es arbitrary: s)
  case Nil
  then show ?case by simp
next
  case (Cons e es)
  then obtain s' where s': "conn_step s e = Some s'" and run: "conn_run s' es = Some s1"
    by (auto split: option.splits)
  from Cons.IH [OF conn_inv_step [OF Cons.prems(1) s'] run] show ?case .
qed

text \<open>
  Claim C6, as amended. In every run of a client connection, once the backend connection
  has been released the handler has received a completion from \<^verbatim>\<open>errCh\<close>, so at least one of
  the two copy tasks has terminated.
\<close>

theorem release_after_first_copy:
  assumes "conn_run conn_init es = Some s" and "released s"
  shows "received s \<and> (c2b s = Terminated \<or> b2c s = Terminated)"
proof -
  have inv: "conn_inv s" by (rule conn_inv_run [OF conn_inv_init assms(1)])
  have r: "received s"
    using inv assms(2) by (cases "handler s") (simp_all add: conn_inv_def)
  have "errCh s + 1 = sent s" using inv r by (simp add: conn_inv_def)
  then have "c2b s = Terminated \<or> b2c s = Terminated"
    by (auto simp: sent_def split: if_splits)
  with r show ?thesis by simp
qed

theorem release_after_first_copy_witness:
  "conn_run conn_init
     [LookupOk, GetOk, Spawn, Spawn, CopyReturns BackendToClient, Send BackendToClient,
      Receive, Release, CloseClient] =
   Some \<lparr>handler = Returned, c2b = Copying, b2c = Terminated, errCh = 0,
         received = True, released = True\<rparr> \<and>
   released \<lparr>handler = Returned, c2b = Copying, b2c = Terminated, errCh = 0,
         received = True, released = True\<rparr> \<and>
   (c2b \<lparr>handler = Returned, c2b = Copying, b2c = Terminated, errCh = 0,
         received = True, released = True\<rparr> = Terminated \<or>
    b2c \<lparr>handler = Returned, c2b = Copying, b2c = Terminated, errCh = 0,
         received = True, released = True\<rparr> = Terminated)"
proof -
  have run: "conn_run conn_init
     [LookupOk, GetOk, Spawn, Spawn, CopyReturns BackendToClient, Send BackendToClient,
      Receive, Release, CloseClient] =
   Some \<lparr>handler = Returned, c2b = Copying, b2c = Terminated, errCh = 0,
         received = True, released = True\<rparr>"
    by (simp add: conn_init_def task_of_def set_task_def)
  show ?thesis
    using run release_after_first_copy [OF run] by simp
qed

text \<open>
  Claim C6 as stated fails: the handler receives once. In this run the copy from the client
  to the backend ends and sends, the handler receives and releases the backend connection,
  and the copy from the backend to the client is still running.
\<close>

theorem release_before_second_copy_ends:
  "conn_run conn_init
     [LookupOk, GetOk, Spawn, Spawn, CopyReturns ClientToBackend, Send ClientToBackend,
      Receive, Release] =
   Some \<lparr>handler = AtCloseClient, c2b = Terminated, b2c = Copying, errCh = 0,
         received = True, released = True\<rparr>"
  by (simp add: conn_init_def task_of_def set_task_def)

end
